theory Spec2Isabelle
  imports Complex_Main "HOL-Library.Log_Nat"
begin

unbundle bit_operations_syntax

section \<open>Python values and primitives used by validate\_takum.py\<close>

text \<open>
  The codec of \<^verbatim>\<open>validate_takum.py\<close> works on Python's unbounded integers and on
  IEEE doubles. Integers are modelled by \<^typ>\<open>int\<close>; \<^verbatim>\<open>|\<close>, \<^verbatim>\<open>&\<close>,
  \<^verbatim>\<open><<\<close> and \<^verbatim>\<open>>>\<close> are the two's-complement operations of \<^typ>\<open>int\<close>.
  Every exception the interpreter can raise in the modelled functions is a value of
  \<open>error\<close>, and the functions return \<open>error + 'a\<close> with \<open>Inl\<close> for a raise.
\<close>

datatype error = ValueError | IndexError | OverflowError

type_synonym 'a result = "error + 'a"

definition bindR :: "'a result \<Rightarrow> ('a \<Rightarrow> 'b result) \<Rightarrow> 'b result" where
  "bindR m f = (case m of Inl e \<Rightarrow> Inl e | Inr v \<Rightarrow> f v)"

text \<open>
  A Python float is not-a-number, one of the two infinities, or a finite double. A finite
  double is modelled by the real number it denotes. In the encoder every floating-point
  operation other than \<^verbatim>\<open>math.log\<close> is exact on the values it meets (doubling,
  absolute value, rounding to an integer, the difference \<^verbatim>\<open>abs(l_float) - abs(l)\<close>,
  scaling by a power of two, truncation), so real arithmetic computes what the doubles
  compute there. In the decoder the true division \<^verbatim>\<open>m / (1 << m_bits)\<close> and the
  addition of \<^verbatim>\<open>l\<close> are not exact when the mantissa is wide: each is rounded to the
  nearest double, ties to even, by \<open>round_double\<close>; the halving that follows is exact.
  The two library functions are modelled by the real logarithm and exponential, with the
  interpreter's failures kept: \<^verbatim>\<open>math.log\<close> raises ValueError outside the positive
  reals, \<^verbatim>\<open>math.exp\<close> raises OverflowError when the result exceeds the largest double
  and returns zero when it underflows. Every evaluation of the encoder at a concrete input
  below is decided by bounds on the logarithm that leave a margin above \<open>1 / 10000\<close>,
  many orders of magnitude more than the rounding error of \<^verbatim>\<open>math.log\<close>.
\<close>

datatype pyfloat = NaN | PInf | NInf | Fin real

definition shl :: "int \<Rightarrow> int \<Rightarrow> int result" where
  \<comment> \<open>\<^verbatim>\<open>x << n\<close>: a negative shift count raises ValueError\<close>
  "shl x n = (if n < 0 then Inl ValueError else Inr (push_bit (nat n) x))"

definition shr :: "int \<Rightarrow> int \<Rightarrow> int result" where
  \<comment> \<open>\<^verbatim>\<open>x >> n\<close>: a negative shift count raises ValueError\<close>
  "shr x n = (if n < 0 then Inl ValueError else Inr (drop_bit (nat n) x))"

fun bit_length_nat :: "nat \<Rightarrow> nat" where
  "bit_length_nat n = (if n = 0 then 0 else Suc (bit_length_nat (n div 2)))"

declare bit_length_nat.simps [simp del]

definition bit_length :: "int \<Rightarrow> int" where
  \<comment> \<open>\<^verbatim>\<open>int.bit_length()\<close>: the number of binary digits of the absolute value\<close>
  "bit_length k = int (bit_length_nat (nat (abs k)))"

definition py_round :: "real \<Rightarrow> int" where
  \<comment> \<open>\<^verbatim>\<open>round(x)\<close> with one argument: nearest integer, ties to the even one\<close>
  "py_round x =
     (let f = \<lfloor>x\<rfloor>; d = x - of_int f
      in if d < 1 / 2 then f else if 1 / 2 < d then f + 1 else if even f then f else f + 1)"

definition py_int :: "real \<Rightarrow> int" where
  \<comment> \<open>\<^verbatim>\<open>int(x)\<close> on a float: truncation towards zero\<close>
  "py_int x = (if 0 \<le> x then \<lfloor>x\<rfloor> else \<lceil>x\<rceil>)"

definition round_double :: "real \<Rightarrow> real" where
  \<comment> \<open>the nearest double with a 53-bit significand, ties to the even significand;
      the decoder's values lie between \<open>2 ^ - 59\<close> and \<open>2 ^ 9\<close> in magnitude or are
      zero, so exponent limits play no part\<close>
  "round_double x =
     (if x = 0 then 0
      else (let u = 2 powr of_int (\<lfloor>log 2 (abs x)\<rfloor> - 52)
            in of_int (py_round (x / u)) * u))"

definition math_log :: "real \<Rightarrow> real result" where
  "math_log x = (if x \<le> 0 then Inl ValueError else Inr (ln x))"

definition DBL_MAX :: real where
  "DBL_MAX = (2 ^ 53 - 1) * 2 ^ 971"

definition math_exp :: "real \<Rightarrow> real result" where
  "math_exp x =
     (if DBL_MAX < exp x then Inl OverflowError
      else if exp x < 1 / 2 ^ 1075 then Inr 0
      else Inr (exp x))"

definition tuple_index :: "'a list \<Rightarrow> int \<Rightarrow> 'a result" where
  \<comment> \<open>\<^verbatim>\<open>t[i]\<close>: an index below zero counts from the end, IndexError out of range\<close>
  "tuple_index t i =
     (let n = int (length t)
      in if 0 \<le> i \<and> i < n then Inr (t ! nat i)
         else if - n \<le> i \<and> i < 0 then Inr (t ! nat (i + n))
         else Inl IndexError)"

fun collect :: "'a result list \<Rightarrow> 'a list result" where
  \<comment> \<open>\<^verbatim>\<open>tuple(f(x) for x in xs)\<close>: the first raise aborts the construction\<close>
  "collect [] = Inr []"
| "collect (x # xs) = bindR x (\<lambda>v. bindR (collect xs) (\<lambda>vs. Inr (v # vs)))"

section \<open>Configuration\<close>

text \<open>
  \<^verbatim>\<open>TakumConfig\<close> is a frozen dataclass; \<^verbatim>\<open>sign_bits\<close>, \<^verbatim>\<open>direction_bits\<close> and
  \<^verbatim>\<open>regime_bits\<close> have the defaults 1, 1 and 3, which every configuration of the
  module keeps.
\<close>

record TakumConfig =
  bits :: int
  sign_bits :: int
  direction_bits :: int
  regime_bits :: int

definition mkTakumConfig :: "int \<Rightarrow> TakumConfig" where
  \<comment> \<open>the constructor call \<^verbatim>\<open>TakumConfig(bits=b)\<close>\<close>
  "mkTakumConfig b = \<lparr>bits = b, sign_bits = 1, direction_bits = 1, regime_bits = 3\<rparr>"

definition overhead_bits :: "TakumConfig \<Rightarrow> int" where
  "overhead_bits cfg = sign_bits cfg + direction_bits cfg + regime_bits cfg"

definition max_mantissa_bits :: "TakumConfig \<Rightarrow> int" where
  "max_mantissa_bits cfg = bits cfg - overhead_bits cfg"

definition nar_value :: "TakumConfig \<Rightarrow> int result" where
  "nar_value cfg = bindR (shl 1 (bits cfg - 1)) (\<lambda>p. Inr (- p))"

definition one_value :: "TakumConfig \<Rightarrow> int result" where
  "one_value cfg = shl 1 (bits cfg - 3)"

definition TAKUM8 :: TakumConfig where "TAKUM8 = mkTakumConfig 8"
definition TAKUM16 :: TakumConfig where "TAKUM16 = mkTakumConfig 16"
definition TAKUM32 :: TakumConfig where "TAKUM32 = mkTakumConfig 32"
definition TAKUM64 :: TakumConfig where "TAKUM64 = mkTakumConfig 64"

definition CONFIGS :: "(int \<times> TakumConfig) list" where
  "CONFIGS = [(8, TAKUM8), (16, TAKUM16), (32, TAKUM32), (64, TAKUM64)]"

definition supported :: "TakumConfig \<Rightarrow> bool" where
  \<comment> \<open>the configurations a caller can obtain from \<^verbatim>\<open>CONFIGS\<close>\<close>
  "supported cfg = (cfg \<in> set (map snd CONFIGS))"

section \<open>Characteristic bias and regime\<close>

definition c_bias :: "int \<Rightarrow> int result" where
  "c_bias r =
     (if \<not> (0 \<le> r \<and> r \<le> 7) then Inl ValueError
      else bindR (shl 1 (r + 1)) (\<lambda>p. Inr (p - 1)))"

definition C_BIAS_LUT :: "int list result" where
  "C_BIAS_LUT = collect (map c_bias [0..7])"

definition lut_get :: "int \<Rightarrow> int result" where
  \<comment> \<open>the expression \<^verbatim>\<open>C_BIAS_LUT[r]\<close>\<close>
  "lut_get r = bindR C_BIAS_LUT (\<lambda>lut. tuple_index lut r)"

definition compute_regime :: "int \<Rightarrow> int" where
  "compute_regime l_abs = (if l_abs = 0 then 0 else min 7 (bit_length (l_abs + 1) - 1))"

section \<open>Encoder\<close>

text \<open>
  \<^verbatim>\<open>encode_takum_log\<close> is modelled in three pieces that follow its text in order:
  \<open>characteristic\<close> is the conditional of lines 191 to 194, \<open>encode_fields\<close> is lines
  171 to 203 (sign, logarithm, direction, regime, characteristic, mantissa) and
  \<open>assemble\<close> is lines 205 to 217 (the bit pattern and its conversion to a signed
  integer). \<open>mantissa_bits\<close> is the clamped width that encoder and decoder both compute.
\<close>

record enc_fields =
  ef_s :: int
  ef_l_float :: real
  ef_l :: int
  ef_d :: int
  ef_r :: int
  ef_c :: int
  ef_m_bits :: int
  ef_m :: int

definition characteristic :: "int \<Rightarrow> int \<Rightarrow> int \<Rightarrow> int result" where
  "characteristic l l_abs r =
     (if l \<ge> 0 then (if r > 0 then bindR (lut_get r) (\<lambda>b. Inr (l - b)) else Inr 0)
      else (if r > 0 then bindR (lut_get r) (\<lambda>b. Inr (b - 1 - l_abs)) else Inr 0))"

definition mantissa_bits :: "TakumConfig \<Rightarrow> int \<Rightarrow> int" where
  "mantissa_bits cfg r =
     (let m_bits = bits cfg - overhead_bits cfg - r in if m_bits < 0 then 0 else m_bits)"

definition encode_fields :: "real \<Rightarrow> TakumConfig \<Rightarrow> enc_fields result" where
  "encode_fields v cfg =
     (let s = (if v > 0 then 0 else 1);
          abs_value = abs v
      in bindR (math_log abs_value) (\<lambda>lg.
         let l_float = 2 * lg;
             l_rounded = py_round l_float;
             l = max (- 255) (min 255 l_rounded);
             d = (if l \<ge> 0 then 1 else 0);
             l_abs = abs l;
             r = compute_regime l_abs
         in bindR (characteristic l l_abs r) (\<lambda>c.
            let m_bits = mantissa_bits cfg r;
                l_frac = abs l_float - of_int (abs l)
            in bindR (if m_bits > 0
                      then bindR (shl 1 m_bits) (\<lambda>p. Inr (py_int (l_frac * of_int p)))
                      else Inr 0) (\<lambda>m.
               Inr \<lparr>ef_s = s, ef_l_float = l_float, ef_l = l, ef_d = d, ef_r = r,
                    ef_c = c, ef_m_bits = m_bits, ef_m = m\<rparr>))))"

definition assemble :: "enc_fields \<Rightarrow> TakumConfig \<Rightarrow> int result" where
  "assemble f cfg =
     bindR (shl (ef_s f) (bits cfg - 1)) (\<lambda>t0.
     bindR (shl (ef_d f) (bits cfg - 2)) (\<lambda>t1.
     bindR (shl (ef_r f) (bits cfg - 5)) (\<lambda>t2.
     bindR (if ef_r f > 0 then shl (ef_c f) (ef_m_bits f) else Inr 0) (\<lambda>t3.
     let result = (((t0 OR t1) OR t2) OR t3) OR ef_m f
     in if ef_s f = 1 then bindR (shl 1 (bits cfg)) (\<lambda>p. Inr (result - p))
        else Inr result))))"

definition encode_takum_log :: "pyfloat \<Rightarrow> TakumConfig \<Rightarrow> int result" where
  "encode_takum_log val cfg =
     (case val of
        NaN \<Rightarrow> nar_value cfg
      | PInf \<Rightarrow> nar_value cfg
      | NInf \<Rightarrow> nar_value cfg
      | Fin v \<Rightarrow> if v = 0 then Inr 0
                 else bindR (encode_fields v cfg) (\<lambda>f. assemble f cfg))"

section \<open>Decoder\<close>

text \<open>
  \<open>decode_fields\<close> is lines 239 to 273 of \<^verbatim>\<open>decode_takum_log\<close> (the unsigned
  pattern and the extraction of sign, direction, regime, characteristic, mantissa and
  integer logarithm); \<open>decode_takum_log\<close> adds the special cases before it and the
  exponentiation after it.
\<close>

record dec_fields =
  df_s :: int
  df_d :: int
  df_r :: int
  df_m_bits :: int
  df_c :: int
  df_m :: int
  df_l :: int

definition decode_fields :: "int \<Rightarrow> TakumConfig \<Rightarrow> dec_fields result" where
  "decode_fields encoded cfg =
     bindR (if encoded < 0 then bindR (shl 1 (bits cfg)) (\<lambda>p. Inr (encoded + p))
            else Inr encoded) (\<lambda>encoded_u.
     bindR (shr encoded_u (bits cfg - 1)) (\<lambda>x0. let s = x0 AND 1 in
     bindR (shr encoded_u (bits cfg - 2)) (\<lambda>x1. let d = x1 AND 1 in
     bindR (shr encoded_u (bits cfg - 5)) (\<lambda>x2. let r = x2 AND 7;
                                                    m_bits = mantissa_bits cfg r in
     bindR (if r > 0
            then bindR (shr encoded_u m_bits) (\<lambda>x3.
                 bindR (shl 1 r) (\<lambda>p. Inr (x3 AND (p - 1))))
            else Inr 0) (\<lambda>c.
     bindR (if m_bits > 0 then bindR (shl 1 m_bits) (\<lambda>p. Inr (encoded_u AND (p - 1)))
            else Inr 0) (\<lambda>m.
     bindR (if d = 1
            then (if r > 0 then bindR (lut_get r) (\<lambda>b. Inr (b + c)) else Inr 0)
            else bindR (if r > 0 then bindR (lut_get r) (\<lambda>b. Inr (b - 1 - c)) else Inr 0)
                   (\<lambda>l_biased. Inr (- (l_biased + 1)))) (\<lambda>l.
     Inr \<lparr>df_s = s, df_d = d, df_r = r, df_m_bits = m_bits, df_c = c, df_m = m,
          df_l = l\<rparr>)))))))"

definition decode_l_float :: "dec_fields \<Rightarrow> real result" where
  \<comment> \<open>line 276: the logarithm with the mantissa's contribution; the quotient of the two
      integers and the sum are each rounded to a double, and without a mantissa the
      logarithm stays the integer \<open>l\<close>\<close>
  "decode_l_float f =
     (if df_m_bits f > 0
      then bindR (shl 1 (df_m_bits f)) (\<lambda>p.
             Inr (round_double (of_int (df_l f) + round_double (of_int (df_m f) / of_int p))))
      else Inr (of_int (df_l f)))"

definition decode_takum_log :: "int \<Rightarrow> TakumConfig \<Rightarrow> pyfloat result" where
  "decode_takum_log encoded cfg =
     bindR (nar_value cfg) (\<lambda>nar.
     if encoded = nar then Inr NaN
     else if encoded = 0 then Inr (Fin 0)
     else bindR (decode_fields encoded cfg) (\<lambda>f.
          bindR (decode_l_float f) (\<lambda>l_float.
          bindR (math_exp (l_float / 2)) (\<lambda>abs_value.
          Inr (Fin (if df_s f = 1 then - abs_value else abs_value))))))"

section \<open>Library constants\<close>

text \<open>
  \<open>MATH_E\<close> is the double \<^verbatim>\<open>math.e\<close> and \<open>SQRT_E\<close> is the module constant
  \<^verbatim>\<open>SQRT_E = math.sqrt(math.e)\<close>, the double nearest to the square root of
  \<^verbatim>\<open>math.e\<close>; both are written as the exact fractions the doubles denote.
\<close>

definition MATH_E :: real where
  "MATH_E = 6121026514868073 / 2251799813685248"

definition SQRT_E :: real where
  "SQRT_E = 1856295125090727 / 1125899906842624"

section \<open>Basic facts about the primitives\<close>

lemma bindR_Inr [simp]: "bindR (Inr v) f = f v"
  by (simp add: bindR_def)

lemma bindR_Inl [simp]: "bindR (Inl e) f = Inl e"
  by (simp add: bindR_def)

lemma shl_nonneg: "0 \<le> n \<Longrightarrow> shl x n = Inr (x * 2 ^ nat n)"
  by (simp add: shl_def push_bit_eq_mult)

lemma shr_nonneg: "0 \<le> n \<Longrightarrow> shr x n = Inr (x div 2 ^ nat n)"
  by (simp add: shr_def drop_bit_eq_div)

lemma upto_0_7: "[0..7::int] = [0, 1, 2, 3, 4, 5, 6, 7]"
  by (simp add: upto.simps)

lemma C_BIAS_LUT_value: "C_BIAS_LUT = Inr [1, 3, 7, 15, 31, 63, 127, 255]"
  by (simp add: C_BIAS_LUT_def upto_0_7 c_bias_def shl_nonneg)

lemma lut_get_in_range:
  assumes "0 \<le> r" and "r \<le> 7"
  shows "lut_get r = Inr (2 ^ nat (r + 1) - 1)"
proof -
  from assms have "r \<in> {0, 1, 2, 3, 4, 5, 6, 7}" by auto
  then show ?thesis
    by (auto simp: lut_get_def C_BIAS_LUT_value tuple_index_def)
qed

lemma supported_iff:
  "supported cfg \<longleftrightarrow> cfg = TAKUM8 \<or> cfg = TAKUM16 \<or> cfg = TAKUM32 \<or> cfg = TAKUM64"
  by (auto simp: supported_def CONFIGS_def)

lemmas TAKUM_defs = TAKUM8_def TAKUM16_def TAKUM32_def TAKUM64_def mkTakumConfig_def

lemma supported_bits:
  "supported cfg \<Longrightarrow> bits cfg \<in> {8, 16, 32, 64} \<and> overhead_bits cfg = 5"
  by (auto simp: supported_iff TAKUM_defs overhead_bits_def)

lemma nar_value_supported:
  "supported cfg \<Longrightarrow> nar_value cfg = Inr (- (2 ^ nat (bits cfg - 1)))"
  by (auto simp: supported_iff TAKUM_defs nar_value_def shl_nonneg)

lemma py_round_of_int [simp]: "py_round (of_int k) = k"
  by (simp add: py_round_def)

lemma py_round_0 [simp]: "py_round 0 = 0"
  using py_round_of_int [of 0] by simp

lemma py_round_numeral [simp]: "py_round (numeral n) = numeral n"
  using py_round_of_int [of "numeral n"] by simp

lemma bit_length_nat_0 [simp]: "bit_length_nat 0 = 0"
  by (simp add: bit_length_nat.simps)

lemma bit_length_nat_pos: "0 < n \<Longrightarrow> bit_length_nat n = Suc (bit_length_nat (n div 2))"
  by (subst bit_length_nat.simps) simp

lemmas encode_defs = encode_takum_log_def encode_fields_def math_log_def compute_regime_def
  characteristic_def mantissa_bits_def overhead_bits_def py_int_def assemble_def Let_def

section \<open>Bit length and regime\<close>

lemma bit_length_nat_bounds:
  "0 < n \<Longrightarrow> 2 ^ (bit_length_nat n - 1) \<le> n \<and> n < 2 ^ bit_length_nat n"
proof (induction n rule: bit_length_nat.induct)
  case (1 n)
  show ?case
  proof (cases "n div 2 = 0")
    case True
    with "1.prems" have "n = 1" by (simp add: div_eq_0_iff)
    then show ?thesis by (simp add: bit_length_nat_pos)
  next
    case False
    then have pos: "0 < n div 2" by simp
    from "1.prems" have n0: "n \<noteq> 0" by simp
    from "1.IH" [OF n0 pos]
    have ih: "2 ^ (bit_length_nat (n div 2) - 1) \<le> n div 2" "n div 2 < 2 ^ bit_length_nat (n div 2)"
      by simp_all
    have bl: "bit_length_nat n = Suc (bit_length_nat (n div 2))"
      using "1.prems" by (rule bit_length_nat_pos)
    have blpos: "0 < bit_length_nat (n div 2)"
      using pos by (simp add: bit_length_nat_pos)
    then obtain k where k: "bit_length_nat (n div 2) = Suc k"
      by (cases "bit_length_nat (n div 2)") simp_all
    from ih k have "2 * 2 ^ k \<le> 2 * (n div 2)" by simp
    also have "\<dots> \<le> n" by simp
    finally have lo: "2 ^ (bit_length_nat n - 1) \<le> n" by (simp add: bl k)
    from ih(2) have "n < 2 * 2 ^ bit_length_nat (n div 2)" by linarith
    then have hi: "n < 2 ^ bit_length_nat n" by (simp add: bl)
    from lo hi show ?thesis ..
  qed
qed

lemma bit_length_bounds:
  assumes "0 < k"
  shows "1 \<le> bit_length k \<and> 2 ^ nat (bit_length k - 1) \<le> k \<and> k < 2 ^ nat (bit_length k)"
proof -
  define n where "n = nat k"
  with assms have n: "0 < n" "k = int n" by simp_all
  from bit_length_nat_bounds [OF n(1)]
  have b: "2 ^ (bit_length_nat n - 1) \<le> n" "n < 2 ^ bit_length_nat n" by simp_all
  have blpos: "0 < bit_length_nat n" using n(1) by (simp add: bit_length_nat_pos)
  have bl: "bit_length k = int (bit_length_nat n)" by (simp add: bit_length_def n(2))
  have nn: "nat (int (bit_length_nat n) - 1) = bit_length_nat n - 1" by simp
  have "int (2 ^ (bit_length_nat n - 1)) \<le> int n" "int n < int (2 ^ bit_length_nat n)"
    using b by (simp_all only: of_nat_le_iff of_nat_less_iff)
  then have "2 ^ (bit_length_nat n - 1) \<le> k" "k < 2 ^ bit_length_nat n"
    by (simp_all add: n(2))
  then show ?thesis using blpos unfolding bl nn by simp
qed

lemma bit_length_floor_log:
  assumes "0 < k"
  shows "bit_length k - 1 = \<lfloor>log 2 (of_int k)\<rfloor>"
proof -
  define n where "n = nat k"
  with assms have n: "0 < n" "k = int n" by simp_all
  from bit_length_nat_bounds [OF n(1)]
  have b: "2 ^ (bit_length_nat n - 1) \<le> n" "n < 2 ^ bit_length_nat n" by simp_all
  have blpos: "0 < bit_length_nat n" using n(1) by (simp add: bit_length_nat_pos)
  then have "n < 2 ^ (bit_length_nat n - 1 + 1)" using b(2) by simp
  with b(1) have "\<lfloor>log (real 2) (real n)\<rfloor> = int (bit_length_nat n - 1)"
    by (intro floor_log_nat_eq_if) simp_all
  then show ?thesis using blpos by (simp add: bit_length_def n(2))
qed

lemma compute_regime_floor_log:
  "0 < l_abs \<Longrightarrow> compute_regime l_abs = min 7 \<lfloor>log 2 (of_int (l_abs + 1))\<rfloor>"
  using bit_length_floor_log [of "l_abs + 1"] by (simp add: compute_regime_def)

lemma compute_regime_range:
  "0 \<le> l_abs \<Longrightarrow> 0 \<le> compute_regime l_abs \<and> compute_regime l_abs \<le> 7"
proof -
  assume a: "0 \<le> l_abs"
  have "1 \<le> bit_length (l_abs + 1)"
    using a by (simp add: bit_length_def bit_length_nat_pos)
  then show ?thesis by (simp add: compute_regime_def)
qed

lemma bit_length_2: "bit_length 2 = 2"
  by (simp add: bit_length_def bit_length_nat_pos)

lemma bit_length_3: "bit_length 3 = 2"
  by (simp add: bit_length_def bit_length_nat_pos)

lemma bit_length_29: "bit_length 29 = 5"
  by (simp add: bit_length_def bit_length_nat_pos)

lemma compute_regime_1: "compute_regime 1 = 1"
  by (simp add: compute_regime_def bit_length_2)

lemma compute_regime_2: "compute_regime 2 = 1"
  by (simp add: compute_regime_def bit_length_3)

lemma compute_regime_28: "compute_regime 28 = 4"
  by (simp add: compute_regime_def bit_length_29)

section \<open>Rounding and truncation\<close>

lemma py_round_eqI:
  assumes "of_int k - 1 / 2 < x" and "x < of_int k + 1 / 2"
  shows "py_round x = k"
proof -
  have "\<lfloor>x\<rfloor> = k \<or> \<lfloor>x\<rfloor> = k - 1" using assms by linarith
  then show ?thesis
  proof
    assume f: "\<lfloor>x\<rfloor> = k"
    with assms show ?thesis by (simp add: py_round_def Let_def)
  next
    assume f: "\<lfloor>x\<rfloor> = k - 1"
    with assms show ?thesis by (simp add: py_round_def Let_def)
  qed
qed

lemma py_int_eqI:
  assumes "0 \<le> k" and "of_int k \<le> x" and "x < of_int k + 1"
  shows "py_int x = k"
proof -
  from assms have "0 \<le> x" by linarith
  moreover have "\<lfloor>x\<rfloor> = k" using assms by linarith
  ultimately show ?thesis by (simp add: py_int_def)
qed

lemma py_int_small: "abs x < 1 \<Longrightarrow> py_int x = 0"
  by (auto simp: py_int_def) linarith+

lemma py_round_le: "x \<le> of_int n \<Longrightarrow> py_round x \<le> n"
proof -
  assume a: "x \<le> of_int n"
  then have f: "\<lfloor>x\<rfloor> \<le> n" by (simp add: floor_le_iff)
  show ?thesis
  proof (cases "\<lfloor>x\<rfloor> = n")
    case True
    with a have "x = of_int n" by linarith
    then show ?thesis by simp
  next
    case False
    with f have "\<lfloor>x\<rfloor> + 1 \<le> n" by simp
    then show ?thesis by (simp add: py_round_def Let_def)
  qed
qed

lemma py_round_ge: "of_int n \<le> x \<Longrightarrow> n \<le> py_round x"
proof -
  assume "of_int n \<le> x"
  then have "n \<le> \<lfloor>x\<rfloor>" by (simp add: le_floor_iff)
  then show ?thesis by (simp add: py_round_def Let_def)
qed

lemma round_double_scale:
  assumes "x \<noteq> 0" and "abs x < 2 ^ 53"
  obtains n :: nat where "round_double x = of_int (py_round (x * 2 ^ n)) / 2 ^ n"
proof -
  define e where "e = \<lfloor>log 2 (abs x)\<rfloor>"
  have pos: "0 < abs x" using assms(1) by simp
  have "abs x < 2 powr 53" using assms(2) by (simp add: powr_numeral)
  then have "log 2 (abs x) < 53" using pos by (simp add: log_less_iff)
  then have e: "e \<le> 52" unfolding e_def by linarith
  define n where "n = nat (52 - e)"
  have "real_of_int (e - 52) = - real n" using e by (simp add: n_def)
  then have "(2::real) powr real_of_int (e - 52) = 2 powr (- real n)" by (simp only:)
  then have u: "(2::real) powr real_of_int (e - 52) = 1 / 2 ^ n"
    by (simp add: powr_minus powr_realpow inverse_eq_divide)
  have "round_double x = of_int (py_round (x * 2 ^ n)) / 2 ^ n"
    unfolding round_double_def Let_def e_def [symmetric] u
    using assms(1) by simp
  then show ?thesis by (rule that)
qed

lemma round_double_le:
  assumes "x \<le> of_int k" and "abs x < 2 ^ 53"
  shows "round_double x \<le> of_int k"
proof (cases "x = 0")
  case True
  with assms show ?thesis by (simp add: round_double_def)
next
  case False
  from round_double_scale [OF False assms(2)]
  obtain n :: nat where r: "round_double x = of_int (py_round (x * 2 ^ n)) / 2 ^ n" .
  have "x * 2 ^ n \<le> of_int k * 2 ^ n" using assms(1) by simp
  then have "x * 2 ^ n \<le> of_int (k * 2 ^ n)" by simp
  then have "py_round (x * 2 ^ n) \<le> k * 2 ^ n" by (rule py_round_le)
  then have "real_of_int (py_round (x * 2 ^ n)) \<le> of_int (k * 2 ^ n)"
    by (simp only: of_int_le_iff)
  then show ?thesis by (simp add: r field_simps)
qed

lemma round_double_ge:
  assumes "of_int k \<le> x" and "abs x < 2 ^ 53"
  shows "of_int k \<le> round_double x"
proof (cases "x = 0")
  case True
  with assms show ?thesis by (simp add: round_double_def)
next
  case False
  from round_double_scale [OF False assms(2)]
  obtain n :: nat where r: "round_double x = of_int (py_round (x * 2 ^ n)) / 2 ^ n" .
  have "of_int k * 2 ^ n \<le> x * 2 ^ n" using assms(1) by simp
  then have "of_int (k * 2 ^ n) \<le> x * 2 ^ n" by simp
  then have "k * 2 ^ n \<le> py_round (x * 2 ^ n)" by (rule py_round_ge)
  then have "real_of_int (k * 2 ^ n) \<le> of_int (py_round (x * 2 ^ n))"
    by (simp only: of_int_le_iff)
  then show ?thesis by (simp add: r field_simps)
qed

section \<open>Bounds on the exponential and the logarithm\<close>

text \<open>
  The Maclaurin expansion of the exponential with its remainder gives rational bounds,
  good enough to locate the logarithms the encoder takes at the test inputs.
\<close>

lemma exp_taylor_lower:
  fixes x :: real
  assumes "0 \<le> x"
  shows "(\<Sum>m<n. x ^ m / fact m) \<le> exp x"
proof -
  obtain t where t: "exp x = (\<Sum>m<n. x ^ m / fact m) + (exp t / fact n) * x ^ n"
    using Maclaurin_exp_le [of x n] by blast
  have "0 \<le> (exp t / fact n) * x ^ n"
    using assms by simp
  with t show ?thesis by linarith
qed

lemma exp_taylor_upper:
  fixes x :: real
  assumes "0 \<le> x" and "x \<le> 1"
  shows "exp x \<le> (\<Sum>m<n. x ^ m / fact m) + 3 * x ^ n / fact n"
proof -
  obtain t where t: "\<bar>t\<bar> \<le> \<bar>x\<bar>"
    "exp x = (\<Sum>m<n. x ^ m / fact m) + (exp t / fact n) * x ^ n"
    using Maclaurin_exp_le [of x n] by blast
  from t(1) assms have "t \<le> 1" by linarith
  then have "exp t \<le> exp 1" by simp
  also have "\<dots> \<le> 3" by (rule exp_le)
  finally have "exp t \<le> 3" .
  then have "exp t / fact n \<le> 3 / fact n"
    by (simp add: divide_right_mono)
  then have "(exp t / fact n) * x ^ n \<le> (3 / fact n) * x ^ n"
    using assms by (intro mult_right_mono) simp_all
  with t(2) show ?thesis by (simp add: field_simps)
qed

lemma ln_between:
  fixes x :: real
  assumes "exp a < x" and "x < exp b"
  shows "a < ln x \<and> ln x < b"
proof -
  have "0 < x" using assms(1) exp_gt_zero [of a] by linarith
  then have "exp a < exp (ln x)" "exp (ln x) < exp b" using assms by simp_all
  then show ?thesis by (simp only: exp_less_cancel_iff)
qed

lemma ln2_lower: "1419 / 2048 < ln (2::real)"
proof -
  have "exp (1419 / 2048 :: real) \<le> (\<Sum>m<8. (1419 / 2048) ^ m / fact m) + 3 * (1419 / 2048) ^ 8 / fact 8"
    by (rule exp_taylor_upper) simp_all
  also have "\<dots> < 2"
    by (simp add: lessThan_nat_numeral lessThan_Suc fact_numeral power_divide)
  finally have "exp (1419 / 2048 :: real) < exp (ln 2)" by simp
  then show ?thesis by (simp only: exp_less_cancel_iff)
qed

lemma ln2_upper: "ln (2::real) < 1420 / 2048"
proof -
  have "(2::real) < (\<Sum>m<8. (1420 / 2048) ^ m / fact m)"
    by (simp add: lessThan_nat_numeral lessThan_Suc fact_numeral power_divide)
  also have "\<dots> \<le> exp (1420 / 2048)"
    by (rule exp_taylor_lower) simp
  finally have "exp (ln 2) < exp (1420 / 2048 :: real)" by simp
  then show ?thesis by (simp only: exp_less_cancel_iff)
qed

lemma ln_MATH_E: "2047 / 2048 < ln MATH_E \<and> ln MATH_E < 2049 / 2048"
proof (rule ln_between)
  have "exp (2047 / 2048 :: real) \<le> (\<Sum>m<8. (2047 / 2048) ^ m / fact m) + 3 * (2047 / 2048) ^ 8 / fact 8"
    by (rule exp_taylor_upper) simp_all
  also have "\<dots> < MATH_E"
    by (simp add: MATH_E_def lessThan_nat_numeral lessThan_Suc fact_numeral power_divide)
  finally show "exp (2047 / 2048) < MATH_E" .
  have "MATH_E < (\<Sum>m<8. (2049 / 2048) ^ m / fact m)"
    by (simp add: MATH_E_def lessThan_nat_numeral lessThan_Suc fact_numeral power_divide)
  also have "\<dots> \<le> exp (2049 / 2048)"
    by (rule exp_taylor_lower) simp
  finally show "MATH_E < exp (2049 / 2048)" .
qed

lemma ln_SQRT_E: "1023 / 2048 < ln SQRT_E \<and> ln SQRT_E < 1025 / 2048"
proof (rule ln_between)
  have "exp (1023 / 2048 :: real) \<le> (\<Sum>m<6. (1023 / 2048) ^ m / fact m) + 3 * (1023 / 2048) ^ 6 / fact 6"
    by (rule exp_taylor_upper) simp_all
  also have "\<dots> < SQRT_E"
    by (simp add: SQRT_E_def lessThan_nat_numeral lessThan_Suc fact_numeral power_divide)
  finally show "exp (1023 / 2048) < SQRT_E" .
  have "SQRT_E < (\<Sum>m<6. (1025 / 2048) ^ m / fact m)"
    by (simp add: SQRT_E_def lessThan_nat_numeral lessThan_Suc fact_numeral power_divide)
  also have "\<dots> \<le> exp (1025 / 2048)"
    by (rule exp_taylor_lower) simp
  finally show "SQRT_E < exp (1025 / 2048)" .
qed

text \<open>\<open>SQRT_E\<close> lies within half a unit in the last place of the square root of \<open>MATH_E\<close>.\<close>

lemma SQRT_E_correctly_rounded:
  "(SQRT_E - 1 / 2 ^ 53)\<^sup>2 < MATH_E \<and> MATH_E < (SQRT_E + 1 / 2 ^ 53)\<^sup>2"
  by (simp add: SQRT_E_def MATH_E_def power2_eq_square)

lemma exp_le_pow3: "x \<le> real n \<Longrightarrow> exp x \<le> 3 ^ n"
proof -
  assume "x \<le> real n"
  then have "exp x \<le> exp (real n)" by simp
  also have "\<dots> = exp 1 ^ n" using exp_of_nat_mult [of n 1] by simp
  also have "\<dots> \<le> 3 ^ n" by (intro power_mono exp_le) simp
  finally show ?thesis .
qed

lemma math_exp_in_range:
  assumes "- 128 \<le> x" and "x \<le> 192"
  shows "math_exp x = Inr (exp x)"
proof -
  have "exp x \<le> 3 ^ 192" using assms(2) exp_le_pow3 [of x 192] by simp
  also have "(3::real) ^ 192 \<le> DBL_MAX" by (simp add: DBL_MAX_def)
  finally have hi: "\<not> DBL_MAX < exp x" by simp
  have "exp (- x) \<le> 3 ^ 128" using assms(1) exp_le_pow3 [of "- x" 128] by simp
  also have "(3::real) ^ 128 \<le> 2 ^ 1075" by simp
  finally have "exp (- x) \<le> 2 ^ 1075" .
  then have "1 / 2 ^ 1075 \<le> 1 / exp (- x)"
    by (intro divide_left_mono) simp_all
  then have lo: "\<not> exp x < 1 / 2 ^ 1075" by (simp add: exp_minus field_simps)
  from hi lo show ?thesis by (simp add: math_exp_def)
qed

section \<open>The encoder's fields in closed form\<close>

text \<open>
  No step of the field computation can raise on a finite non-zero input: the logarithm is
  taken of a positive number, the regime indexes the table inside its bounds, and the
  only shift has a positive count.
\<close>

lemma encode_fields_eq:
  fixes v :: real and cfg :: TakumConfig
  assumes "v \<noteq> 0"
  defines "l_float \<equiv> 2 * ln (abs v)"
  defines "l \<equiv> max (- 255) (min 255 (py_round l_float))"
  defines "r \<equiv> compute_regime (abs l)"
  defines "mb \<equiv> mantissa_bits cfg r"
  shows "encode_fields v cfg =
    Inr \<lparr>ef_s = (if v > 0 then 0 else 1), ef_l_float = l_float, ef_l = l,
         ef_d = (if l \<ge> 0 then 1 else 0), ef_r = r,
         ef_c = (if r > 0 then (if l \<ge> 0 then l - (2 ^ nat (r + 1) - 1)
                                else (2 ^ nat (r + 1) - 1) - 1 - abs l) else 0),
         ef_m_bits = mb,
         ef_m = (if mb > 0 then py_int ((abs l_float - of_int (abs l)) * 2 ^ nat mb) else 0)\<rparr>"
proof -
  have r: "0 \<le> r" "r \<le> 7"
    using compute_regime_range [of "abs l"] by (simp_all add: r_def)
  have lg: "math_log (abs v) = Inr (ln (abs v))"
    using assms(1) by (simp add: math_log_def)
  have ch: "characteristic l (abs l) r =
      Inr (if r > 0 then (if l \<ge> 0 then l - (2 ^ nat (r + 1) - 1)
                                else (2 ^ nat (r + 1) - 1) - 1 - abs l) else 0)"
    by (simp add: characteristic_def lut_get_in_range [OF r])
  have m: "(if mb > 0 then bindR (shl 1 mb) (\<lambda>p. Inr (py_int (x * of_int p))) else Inr 0)
      = Inr (if mb > 0 then py_int (x * 2 ^ nat mb) else 0)" for x :: real
    by (simp add: shl_nonneg)
  show ?thesis
    unfolding encode_fields_def lg Let_def bindR_Inr
    unfolding l_float_def [symmetric] l_def [symmetric] r_def [symmetric] ch bindR_Inr
      mb_def [symmetric] m
    by simp
qed

lemma mantissa_bits_nonneg: "0 \<le> mantissa_bits cfg r"
  by (simp add: mantissa_bits_def Let_def)

lemma assemble_total:
  assumes "5 \<le> bits cfg" and "0 \<le> ef_m_bits f"
  shows "\<exists>k. assemble f cfg = Inr k"
  using assms by (simp add: assemble_def shl_nonneg Let_def)

lemma encode_no_raise:
  assumes "supported cfg"
  shows "\<exists>k. encode_takum_log x cfg = Inr k"
proof (cases x)
  case (Fin v)
  show ?thesis
  proof (cases "v = 0")
    case True
    with Fin show ?thesis by (simp add: encode_takum_log_def)
  next
    case False
    from supported_bits [OF assms] have b: "5 \<le> bits cfg" by auto
    obtain f where f: "encode_fields v cfg = Inr f" "0 \<le> ef_m_bits f"
      using encode_fields_eq [OF False, of cfg] mantissa_bits_nonneg by simp
    from assemble_total [OF b f(2)] obtain k where "assemble f cfg = Inr k" ..
    with Fin False f(1) show ?thesis by (simp add: encode_takum_log_def)
  qed
qed (use nar_value_supported [OF assms] in \<open>simp_all add: encode_takum_log_def\<close>)

text \<open>
  The sign of the characteristic: negative for every positive logarithm up to 254,
  inside \<open>[0, 2 ^ r)\<close> for every negative logarithm down to \<open>- 254\<close>.
\<close>

lemma characteristic_sign:
  "1 \<le> l \<Longrightarrow> l \<le> 254 \<Longrightarrow>
     \<exists>c. characteristic l (abs l) (compute_regime (abs l)) = Inr c \<and> c < 0"
  "- 254 \<le> l \<Longrightarrow> l \<le> - 1 \<Longrightarrow>
     \<exists>c. characteristic l (abs l) (compute_regime (abs l)) = Inr c
         \<and> 0 \<le> c \<and> c < 2 ^ nat (compute_regime (abs l))"
proof -
  have key: "1 \<le> compute_regime a \<and> compute_regime a \<le> 7
      \<and> 2 ^ nat (compute_regime a) \<le> a + 1 \<and> a + 1 < 2 ^ nat (compute_regime a + 1)"
    if a: "1 \<le> a" "a \<le> 254" for a
  proof -
    from a have pos: "0 < a + 1" by simp
    note bb = bit_length_bounds [OF pos]
    have two: "2 \<le> bit_length (a + 1)"
    proof (rule ccontr)
      assume "\<not> 2 \<le> bit_length (a + 1)"
      with bb have "bit_length (a + 1) = 1" by linarith
      with bb have "a + 1 < 2" by simp
      with a show False by simp
    qed
    show ?thesis
    proof (cases "bit_length (a + 1) - 1 \<le> 7")
      case True
      then have r: "compute_regime a = bit_length (a + 1) - 1"
        using a by (simp add: compute_regime_def)
      show ?thesis using bb two True by (simp add: r)
    next
      case False
      then have r: "compute_regime a = 7"
        using a by (simp add: compute_regime_def)
      from False have "8 \<le> nat (bit_length (a + 1) - 1)" by simp
      then have "(2::int) ^ 8 \<le> 2 ^ nat (bit_length (a + 1) - 1)"
        by (intro power_increasing) simp_all
      with bb have "256 \<le> a + 1" by simp
      with a show ?thesis by simp
    qed
  qed
  {
    assume l: "1 \<le> l" "l \<le> 254"
    then have al: "abs l = l" by simp
    from key [OF l] have r: "0 \<le> compute_regime l" "compute_regime l \<le> 7" "0 < compute_regime l"
      and hi: "l + 1 < 2 ^ nat (compute_regime l + 1)" by simp_all
    show "\<exists>c. characteristic l (abs l) (compute_regime (abs l)) = Inr c \<and> c < 0"
      using l r(3) hi by (simp add: al characteristic_def lut_get_in_range [OF r(1,2)])
  }
  {
    assume l: "- 254 \<le> l" "l \<le> - 1"
    then have al: "abs l = - l" and a: "1 \<le> - l" "- l \<le> 254" by simp_all
    from key [OF a] have r: "0 \<le> compute_regime (- l)" "compute_regime (- l) \<le> 7"
        "0 < compute_regime (- l)"
      and lo: "2 ^ nat (compute_regime (- l)) \<le> - l + 1"
      and hi: "- l + 1 < 2 ^ nat (compute_regime (- l) + 1)" by simp_all
    have p: "(2::int) ^ nat (compute_regime (- l) + 1) = 2 * 2 ^ nat (compute_regime (- l))"
      using r(1) by (simp add: nat_add_distrib)
    show "\<exists>c. characteristic l (abs l) (compute_regime (abs l)) = Inr c
         \<and> 0 \<le> c \<and> c < 2 ^ nat (compute_regime (abs l))"
      using l r(3) lo hi unfolding al
      by (simp add: characteristic_def lut_get_in_range [OF r(1,2)] p)
  }
qed

subsection \<open>Evaluations at concrete inputs\<close>

lemma round_2ln2: "py_round (2 * ln 2) = 1"
  using ln2_lower ln2_upper by (intro py_round_eqI) simp_all

lemma round_m2ln2: "py_round (- (2 * ln 2)) = - 1"
  using ln2_lower ln2_upper by (intro py_round_eqI) simp_all

lemma mant_2ln2_10: "py_int (2048 * ln 2 - 1024) = 395"
  using ln2_lower ln2_upper by (intro py_int_eqI) simp_all

lemma fields_2_16:
  "encode_fields 2 TAKUM16 = Inr \<lparr>ef_s = 0, ef_l_float = 2 * ln 2, ef_l = 1, ef_d = 1, ef_r = 1,
     ef_c = - 2, ef_m_bits = 10, ef_m = 395\<rparr>"
proof -
  have a: "abs (2 * ln (2::real)) = 2 * ln 2" by simp
  show ?thesis
    by (simp add: encode_fields_eq round_2ln2 compute_regime_1 mantissa_bits_def
        overhead_bits_def TAKUM_defs a mant_2ln2_10)
qed

lemma enc_2_16: "encode_takum_log (Fin 2) TAKUM16 = Inr (- 1653)"
  apply (simp add: encode_takum_log_def fields_2_16)
  apply (simp add: assemble_def TAKUM_defs shl_nonneg)
  done

lemma fields_m2_16:
  "encode_fields (- 2) TAKUM16 = Inr \<lparr>ef_s = 1, ef_l_float = 2 * ln 2, ef_l = 1, ef_d = 1, ef_r = 1,
     ef_c = - 2, ef_m_bits = 10, ef_m = 395\<rparr>"
proof -
  have a: "abs (2 * ln (2::real)) = 2 * ln 2" by simp
  show ?thesis
    by (simp add: encode_fields_eq round_2ln2 compute_regime_1 mantissa_bits_def
        overhead_bits_def TAKUM_defs a mant_2ln2_10)
qed

lemma enc_m2_16: "encode_takum_log (Fin (- 2)) TAKUM16 = Inr (- 67189)"
  apply (simp add: encode_takum_log_def fields_m2_16)
  apply (simp add: assemble_def TAKUM_defs shl_nonneg)
  done

lemma fields_half_16:
  "encode_fields (1 / 2) TAKUM16 = Inr \<lparr>ef_s = 0, ef_l_float = - (2 * ln 2), ef_l = - 1, ef_d = 0, ef_r = 1,
     ef_c = 1, ef_m_bits = 10, ef_m = 395\<rparr>"
proof -
  have a: "abs (2 * ln (2::real)) = 2 * ln 2" by simp
  have b: "ln (1 / 2 :: real) = - ln 2" by (simp add: ln_div)
  show ?thesis
    by (simp add: encode_fields_eq b round_m2ln2 compute_regime_1 mantissa_bits_def
        overhead_bits_def TAKUM_defs a mant_2ln2_10)
qed

lemma enc_half_16: "encode_takum_log (Fin (1 / 2)) TAKUM16 = Inr 3467"
  apply (simp add: encode_takum_log_def fields_half_16)
  apply (simp add: assemble_def TAKUM_defs shl_nonneg)
  done

lemma fields_e_16:
  "encode_fields MATH_E TAKUM16 = Inr \<lparr>ef_s = 0, ef_l_float = 2 * ln MATH_E, ef_l = 2, ef_d = 1,
     ef_r = 1, ef_c = - 1, ef_m_bits = 10, ef_m = 0\<rparr>"
proof -
  have pos: "0 < MATH_E" by (simp add: MATH_E_def)
  then have nz: "MATH_E \<noteq> 0" and ab: "abs MATH_E = MATH_E" by simp_all
  have rd: "py_round (2 * ln MATH_E) = 2"
    using ln_MATH_E by (intro py_round_eqI) simp_all
  have m: "py_int ((abs (2 * ln MATH_E) - 2) * 1024) = 0"
    using ln_MATH_E by (intro py_int_small) (simp add: abs_if)
  have mb: "mantissa_bits TAKUM16 1 = 10"
    by (simp add: mantissa_bits_def overhead_bits_def TAKUM_defs)
  show ?thesis
    unfolding encode_fields_eq [OF nz] ab rd
    using m pos by (simp add: compute_regime_2 mb)
qed

lemma enc_e_16: "encode_takum_log (Fin MATH_E) TAKUM16 = Inr (- 1024)"
proof -
  have nz: "MATH_E \<noteq> 0" by (simp add: MATH_E_def)
  show ?thesis
    apply (simp add: encode_takum_log_def nz fields_e_16)
    apply (simp add: assemble_def TAKUM_defs shl_nonneg)
    done
qed

lemma fields_sqrt_e_16:
  "encode_fields SQRT_E TAKUM16 = Inr \<lparr>ef_s = 0, ef_l_float = 2 * ln SQRT_E, ef_l = 1, ef_d = 1,
     ef_r = 1, ef_c = - 2, ef_m_bits = 10, ef_m = 0\<rparr>"
proof -
  have pos: "0 < SQRT_E" by (simp add: SQRT_E_def)
  then have nz: "SQRT_E \<noteq> 0" and ab: "abs SQRT_E = SQRT_E" by simp_all
  have rd: "py_round (2 * ln SQRT_E) = 1"
    using ln_SQRT_E by (intro py_round_eqI) simp_all
  have m: "py_int ((abs (2 * ln SQRT_E) - 1) * 1024) = 0"
    using ln_SQRT_E by (intro py_int_small) (simp add: abs_if)
  have mb: "mantissa_bits TAKUM16 1 = 10"
    by (simp add: mantissa_bits_def overhead_bits_def TAKUM_defs)
  show ?thesis
    unfolding encode_fields_eq [OF nz] ab rd
    using m pos by (simp add: compute_regime_1 mb)
qed

lemma enc_sqrt_e_16: "encode_takum_log (Fin SQRT_E) TAKUM16 = Inr (- 2048)"
proof -
  have nz: "SQRT_E \<noteq> 0" by (simp add: SQRT_E_def)
  show ?thesis
    apply (simp add: encode_takum_log_def nz fields_sqrt_e_16)
    apply (simp add: assemble_def TAKUM_defs shl_nonneg)
    done
qed

lemma fields_2p20_8:
  "encode_fields 1048576 TAKUM8 = Inr \<lparr>ef_s = 0, ef_l_float = 2 * ln 1048576, ef_l = 28, ef_d = 1,
     ef_r = 4, ef_c = - 3, ef_m_bits = 0, ef_m = 0\<rparr>"
proof -
  have "(1048576::real) = 2 ^ 20" by simp
  then have lg: "ln (1048576::real) = 20 * ln 2" by (simp only: ln_realpow)
  have rd: "py_round (2 * ln 1048576) = 28"
    unfolding lg using ln2_lower ln2_upper by (intro py_round_eqI) simp_all
  have mb: "mantissa_bits TAKUM8 4 = 0"
    by (simp add: mantissa_bits_def overhead_bits_def TAKUM_defs)
  have nz: "(1048576::real) \<noteq> 0" by simp
  have ab: "abs (1048576::real) = 1048576" by simp
  show ?thesis
    unfolding encode_fields_eq [OF nz] ab rd
    by (simp add: compute_regime_28 mb)
qed

section \<open>The decoder's fields\<close>

lemma decode_fields_bounds:
  assumes "supported cfg"
  shows "\<exists>f. decode_fields enc cfg = Inr f
           \<and> (df_s f = 0 \<or> df_s f = 1)
           \<and> 0 \<le> df_r f \<and> df_r f \<le> 7
           \<and> df_m_bits f = mantissa_bits cfg (df_r f)
           \<and> 0 \<le> df_m_bits f
           \<and> 0 \<le> df_m f \<and> df_m f < 2 ^ nat (df_m_bits f)
           \<and> - 255 \<le> df_l f \<and> df_l f \<le> 382"
proof -
  from supported_bits [OF assms] have b: "8 \<le> bits cfg" "overhead_bits cfg = 5"
    by auto
  define u where "u = (if enc < 0 then enc + 2 ^ nat (bits cfg) else enc)"
  define s where "s = (u div 2 ^ nat (bits cfg - 1)) AND 1"
  define d where "d = (u div 2 ^ nat (bits cfg - 2)) AND 1"
  define r where "r = (u div 2 ^ nat (bits cfg - 5)) AND 7"
  define mb where "mb = mantissa_bits cfg r"
  define c where "c = (if r > 0 then (u div 2 ^ nat mb) AND (2 ^ nat r - 1) else 0)"
  define m where "m = (if mb > 0 then u AND (2 ^ nat mb - 1) else 0)"
  define l where "l = (if d = 1 then (if r > 0 then (2 ^ nat (r + 1) - 1) + c else 0)
                       else - ((if r > 0 then (2 ^ nat (r + 1) - 1) - 1 - c else 0) + 1))"
  have r: "0 \<le> r" "r \<le> 7"
    by (simp_all add: r_def AND_upper2)
  have mb: "0 \<le> mb"
    by (simp add: mb_def mantissa_bits_def Let_def)
  have eu: "(if enc < 0 then bindR (shl 1 (bits cfg)) (\<lambda>p. Inr (enc + p)) else Inr enc) = Inr u"
    using b by (simp add: u_def shl_nonneg)
  have e0: "shr u (bits cfg - 1) = Inr (u div 2 ^ nat (bits cfg - 1))"
    and e1: "shr u (bits cfg - 2) = Inr (u div 2 ^ nat (bits cfg - 2))"
    and e2: "shr u (bits cfg - 5) = Inr (u div 2 ^ nat (bits cfg - 5))"
    using b by (simp_all add: shr_nonneg)
  have ec: "(if r > 0 then bindR (shr u mb) (\<lambda>x3. bindR (shl 1 r) (\<lambda>p. Inr (x3 AND (p - 1))))
             else Inr 0) = Inr c"
    using r mb by (simp add: c_def shl_nonneg shr_nonneg)
  have em: "(if mb > 0 then bindR (shl 1 mb) (\<lambda>p. Inr (u AND (p - 1))) else Inr 0) = Inr m"
    by (simp add: m_def shl_nonneg)
  have el: "(if d = 1
            then (if r > 0 then bindR (lut_get r) (\<lambda>b. Inr (b + c)) else Inr 0)
            else bindR (if r > 0 then bindR (lut_get r) (\<lambda>b. Inr (b - 1 - c)) else Inr 0)
                   (\<lambda>l_biased. Inr (- (l_biased + 1)))) = Inr l"
    by (simp add: l_def lut_get_in_range [OF r])
  have eq: "decode_fields enc cfg =
      Inr \<lparr>df_s = s, df_d = d, df_r = r, df_m_bits = mb, df_c = c, df_m = m, df_l = l\<rparr>"
    unfolding decode_fields_def eu bindR_Inr e0 e1 e2 Let_def
    unfolding s_def [symmetric] d_def [symmetric] r_def [symmetric]
    unfolding mb_def [symmetric]
    unfolding ec em el bindR_Inr
    by (rule refl)
  have sb: "s = 0 \<or> s = 1"
  proof -
    have "0 \<le> s" "s \<le> 1" by (simp_all add: s_def AND_upper2)
    then show ?thesis by linarith
  qed
  have cb: "0 \<le> c" "c \<le> 2 ^ nat r - 1"
    by (simp_all add: c_def AND_upper2)
  have mlo: "0 \<le> m"
    by (simp add: m_def)
  have "m \<le> 2 ^ nat mb - 1"
    by (simp add: m_def AND_upper2)
  then have mhi: "m < 2 ^ nat mb" by simp
  from r have "r = 0 \<or> r = 1 \<or> r = 2 \<or> r = 3 \<or> r = 4 \<or> r = 5 \<or> r = 6 \<or> r = 7"
    by auto
  then have lb: "- 255 \<le> l \<and> l \<le> 382"
    using cb by (elim disjE) (simp_all add: l_def)
  show ?thesis
    using eq sb r mb mlo mhi lb by (simp add: mb_def)
qed

lemma dec_fields_1653:
  "decode_fields (- 1653) TAKUM16 = Inr \<lparr>df_s = 1, df_d = 1, df_r = 7, df_m_bits = 4, df_c = 24, df_m = 11, df_l = 279\<rparr>"
  by (simp add: decode_fields_def TAKUM_defs shl_nonneg shr_nonneg mantissa_bits_def overhead_bits_def lut_get_in_range)

lemma dec_fields_3467:
  "decode_fields 3467 TAKUM16 = Inr \<lparr>df_s = 0, df_d = 0, df_r = 1, df_m_bits = 10, df_c = 1, df_m = 395, df_l = - 2\<rparr>"
  by (simp add: decode_fields_def TAKUM_defs shl_nonneg shr_nonneg mantissa_bits_def overhead_bits_def lut_get_in_range)

section \<open>Special values\<close>

text \<open>
  C5. For each of the four configurations the not-a-real pattern is \<open>- 2 ^ (bits - 1)\<close>;
  the encoder returns it for NaN, for plus infinity and for minus infinity, the decoder
  returns NaN for it, and all four calls return a value rather than raise.
\<close>

theorem nar_fixpoint:
  assumes "supported cfg"
  shows "nar_value cfg = Inr (- (2 ^ nat (bits cfg - 1)))
       \<and> encode_takum_log NaN cfg = Inr (- (2 ^ nat (bits cfg - 1)))
       \<and> encode_takum_log PInf cfg = Inr (- (2 ^ nat (bits cfg - 1)))
       \<and> encode_takum_log NInf cfg = Inr (- (2 ^ nat (bits cfg - 1)))
       \<and> decode_takum_log (- (2 ^ nat (bits cfg - 1))) cfg = Inr NaN"
  using nar_value_supported [OF assms]
  by (simp add: encode_takum_log_def decode_takum_log_def)

theorem nar_fixpoint_witness:
  "supported TAKUM16
   \<and> nar_value TAKUM16 = Inr (- 32768)
   \<and> encode_takum_log NaN TAKUM16 = Inr (- 32768)
   \<and> encode_takum_log PInf TAKUM16 = Inr (- 32768)
   \<and> encode_takum_log NInf TAKUM16 = Inr (- 32768)
   \<and> decode_takum_log (- 32768) TAKUM16 = Inr NaN"
proof -
  have s: "supported TAKUM16" by (simp add: supported_iff)
  have b: "(2::int) ^ nat (bits TAKUM16 - 1) = 32768" by (simp add: TAKUM_defs)
  show ?thesis using s nar_fixpoint [OF s] unfolding b by simp
qed

text \<open>
  C6. For each of the four configurations the encoder maps the float zero to the
  pattern 0, and decoding that result gives the float zero again.
\<close>

theorem zero_fixpoint:
  assumes "supported cfg"
  shows "encode_takum_log (Fin 0) cfg = Inr 0
       \<and> bindR (encode_takum_log (Fin 0) cfg) (\<lambda>e. decode_takum_log e cfg) = Inr (Fin 0)"
  using nar_value_supported [OF assms]
  by (simp add: encode_takum_log_def decode_takum_log_def)

theorem zero_fixpoint_witness:
  "supported TAKUM8
   \<and> encode_takum_log (Fin 0) TAKUM8 = Inr 0
   \<and> bindR (encode_takum_log (Fin 0) TAKUM8) (\<lambda>e. decode_takum_log e TAKUM8) = Inr (Fin 0)"
proof -
  have s: "supported TAKUM8" by (simp add: supported_iff)
  show ?thesis using s zero_fixpoint [OF s] by blast
qed

section \<open>Bias table\<close>

text \<open>
  C7. \<open>c_bias r\<close> is \<open>2 ^ (r + 1) - 1\<close> for every \<open>r\<close> from 0 to 7, in particular
  1, 15 and 255 at 0, 3 and 7, and it raises ValueError exactly when \<open>r\<close> is outside
  that range.
\<close>

theorem c_bias_contract:
  "(0 \<le> r \<and> r \<le> 7 \<longrightarrow> c_bias r = Inr (2 ^ nat (r + 1) - 1))
   \<and> (c_bias r = Inl ValueError \<longleftrightarrow> \<not> (0 \<le> r \<and> r \<le> 7))
   \<and> ((\<exists>e. c_bias r = Inl e) \<longleftrightarrow> \<not> (0 \<le> r \<and> r \<le> 7))
   \<and> c_bias 0 = Inr 1 \<and> c_bias 3 = Inr 15 \<and> c_bias 7 = Inr 255"
  by (auto simp: c_bias_def shl_nonneg)

theorem c_bias_contract_witness:
  "(0::int) \<le> 5 \<and> (5::int) \<le> 7 \<and> c_bias 5 = Inr 63 \<and> c_bias 8 = Inl ValueError
   \<and> c_bias (- 1) = Inl ValueError"
  using c_bias_contract [of 5] c_bias_contract [of 8] c_bias_contract [of "- 1"]
  by simp

section \<open>Regime\<close>

text \<open>
  C8. \<open>compute_regime\<close> is 0 at 0 and \<open>min 7 \<lfloor>log 2 (l_abs + 1)\<rfloor>\<close> at every positive
  \<open>l_abs\<close>; on non-negative arguments its result lies between 0 and 7, so the table
  lookup with it returns the bias and does not raise. The regime the encoder computes on
  a finite non-zero input and the regime the decoder extracts from any pattern lie
  between 0 and 7 as well, and neither field computation raises.
\<close>

theorem compute_regime_contract:
  "compute_regime 0 = 0
   \<and> (0 < l_abs \<longrightarrow> compute_regime l_abs = min 7 \<lfloor>log 2 (of_int (l_abs + 1))\<rfloor>)
   \<and> (0 \<le> l_abs \<longrightarrow> 0 \<le> compute_regime l_abs \<and> compute_regime l_abs \<le> 7
          \<and> lut_get (compute_regime l_abs) = Inr (2 ^ nat (compute_regime l_abs + 1) - 1))
   \<and> (v \<noteq> 0 \<longrightarrow> (\<exists>f. encode_fields v cfg = Inr f \<and> 0 \<le> ef_r f \<and> ef_r f \<le> 7))
   \<and> (supported cfg \<longrightarrow> (\<exists>f. decode_fields enc cfg = Inr f \<and> 0 \<le> df_r f \<and> df_r f \<le> 7))"
proof (intro conjI impI)
  show "compute_regime 0 = 0" by (simp add: compute_regime_def)
next
  assume "0 < l_abs"
  then show "compute_regime l_abs = min 7 \<lfloor>log 2 (of_int (l_abs + 1))\<rfloor>"
    by (rule compute_regime_floor_log)
next
  assume a: "0 \<le> l_abs"
  from compute_regime_range [OF a]
  show "0 \<le> compute_regime l_abs" and r: "compute_regime l_abs \<le> 7" by simp_all
  from compute_regime_range [OF a]
  show "lut_get (compute_regime l_abs) = Inr (2 ^ nat (compute_regime l_abs + 1) - 1)"
    by (intro lut_get_in_range) simp_all
next
  assume nz: "v \<noteq> 0"
  show "\<exists>f. encode_fields v cfg = Inr f \<and> 0 \<le> ef_r f \<and> ef_r f \<le> 7"
    unfolding encode_fields_eq [OF nz]
    using compute_regime_range [of "abs (max (- 255) (min 255 (py_round (2 * ln (abs v)))))"]
    by simp
next
  assume "supported cfg"
  from decode_fields_bounds [OF this, of enc]
  show "\<exists>f. decode_fields enc cfg = Inr f \<and> 0 \<le> df_r f \<and> df_r f \<le> 7" by blast
qed

theorem compute_regime_contract_witness:
  "(0::int) < 5 \<and> compute_regime 5 = min 7 \<lfloor>log 2 (of_int (5 + 1))\<rfloor> \<and> compute_regime 5 = 2
   \<and> lut_get (compute_regime 5) = Inr 7
   \<and> (2::real) \<noteq> 0
   \<and> (\<exists>f. encode_fields 2 TAKUM16 = Inr f \<and> 0 \<le> ef_r f \<and> ef_r f \<le> 7)
   \<and> supported TAKUM16
   \<and> (\<exists>f. decode_fields 3467 TAKUM16 = Inr f \<and> 0 \<le> df_r f \<and> df_r f \<le> 7)"
proof -
  have s: "supported TAKUM16" by (simp add: supported_iff)
  have r: "compute_regime 5 = 2"
    by (simp add: compute_regime_def bit_length_def bit_length_nat_pos)
  show ?thesis
    using s compute_regime_contract [where l_abs = 5 and v = 2 and cfg = TAKUM16 and enc = 3467]
    by (simp add: r)
qed

section \<open>Reference encodings at bit width 16\<close>

text \<open>
  C1. At bit width 16 the encoder returns \<open>0x4000\<close> for 1.0 and \<open>- 0x4000\<close> for -1.0
  (the direction bit is bit \<open>bits - 2\<close>), \<open>- 0x400\<close> for \<^verbatim>\<open>math.e\<close> and \<open>- 0x800\<close>
  for \<^verbatim>\<open>SQRT_E\<close> (the negative characteristic sets every higher bit), and 0 for 0.0.
  The module's table \<^verbatim>\<open>TEST_ENCODINGS\<close> lists \<open>0x2000\<close>, \<open>- 0x2000\<close>, \<open>0x4000\<close>,
  \<open>0x2800\<close> and 0 for these inputs, and \<^verbatim>\<open>one_value\<close> is \<open>0x2000\<close>.
\<close>

theorem encode_reference_values_16:
  "encode_takum_log (Fin 1) TAKUM16 = Inr 0x4000
   \<and> encode_takum_log (Fin (- 1)) TAKUM16 = Inr (- 0x4000)
   \<and> encode_takum_log (Fin MATH_E) TAKUM16 = Inr (- 0x400)
   \<and> encode_takum_log (Fin SQRT_E) TAKUM16 = Inr (- 0x800)
   \<and> encode_takum_log (Fin 0) TAKUM16 = Inr 0
   \<and> one_value TAKUM16 = Inr 0x2000"
proof -
  have "encode_takum_log (Fin 1) TAKUM16 = Inr 0x4000"
    by (simp add: encode_defs TAKUM_defs shl_nonneg)
  moreover have "encode_takum_log (Fin (- 1)) TAKUM16 = Inr (- 0x4000)"
    by (simp add: encode_defs TAKUM_defs shl_nonneg)
  moreover have "encode_takum_log (Fin 0) TAKUM16 = Inr 0"
    by (simp add: encode_takum_log_def)
  moreover have "one_value TAKUM16 = Inr 0x2000"
    by (simp add: one_value_def TAKUM_defs shl_nonneg)
  ultimately show ?thesis
    using enc_e_16 enc_sqrt_e_16 by simp
qed

section \<open>Range of the encoder's result\<close>

text \<open>
  C2. The encoder returns a value for every float at every supported width (lemma
  \<open>encode_no_raise\<close>), but the value need not fit the width: at bit width 16 the input
  -2.0 is encoded as \<open>- 67189\<close>, below the least 16-bit integer \<open>- 32768\<close>.
\<close>

theorem encode_out_of_range_16:
  "encode_takum_log (Fin (- 2)) TAKUM16 = Inr (- 67189)
   \<and> (- 67189 :: int) < - (2 ^ nat (bits TAKUM16 - 1))"
proof
  show "encode_takum_log (Fin (- 2)) TAKUM16 = Inr (- 67189)"
    by (rule enc_m2_16)
  show "(- 67189 :: int) < - (2 ^ nat (bits TAKUM16 - 1))"
    by (simp add: TAKUM_defs)
qed

section \<open>Characteristic\<close>

text \<open>
  C3. For the integer logarithm 1 (regime 1, bias 3) the characteristic computed by the
  encoder is \<open>1 - 3 = - 2\<close>, a negative number; for the logarithm 2 it is \<open>- 1\<close>.
\<close>

theorem characteristic_negative_at_1:
  "compute_regime (abs 1) = 1
   \<and> characteristic 1 (abs 1) (compute_regime (abs 1)) = Inr (- 2)
   \<and> characteristic 2 (abs 2) (compute_regime (abs 2)) = Inr (- 1)"
  by (simp add: compute_regime_1 compute_regime_2 characteristic_def lut_get_in_range)

section \<open>Decoding an encoded value\<close>

text \<open>
  C4. At bit width 16 the encoder packs sign 0, direction 1, regime 1, characteristic
  \<open>- 2\<close>, mantissa 395 and logarithm 1 for the input 2.0 into the pattern \<open>- 1653\<close>,
  which is neither 0 nor the not-a-real pattern; the decoder extracts sign 1, regime 7,
  characteristic 24, mantissa 11 and logarithm 279 from it. For the input 0.5 the pattern
  is 3467, from which the decoder recovers sign, direction, regime, characteristic and
  mantissa but the logarithm \<open>- 2\<close> where the encoder had \<open>- 1\<close>.
\<close>

theorem decode_not_inverse_of_encode:
  "encode_fields 2 TAKUM16 =
     Inr \<lparr>ef_s = 0, ef_l_float = 2 * ln 2, ef_l = 1, ef_d = 1, ef_r = 1, ef_c = - 2,
          ef_m_bits = 10, ef_m = 395\<rparr>
   \<and> encode_takum_log (Fin 2) TAKUM16 = Inr (- 1653)
   \<and> nar_value TAKUM16 = Inr (- 32768)
   \<and> decode_fields (- 1653) TAKUM16 =
     Inr \<lparr>df_s = 1, df_d = 1, df_r = 7, df_m_bits = 4, df_c = 24, df_m = 11, df_l = 279\<rparr>
   \<and> encode_fields (1 / 2) TAKUM16 =
     Inr \<lparr>ef_s = 0, ef_l_float = - (2 * ln 2), ef_l = - 1, ef_d = 0, ef_r = 1, ef_c = 1,
          ef_m_bits = 10, ef_m = 395\<rparr>
   \<and> encode_takum_log (Fin (1 / 2)) TAKUM16 = Inr 3467
   \<and> decode_fields 3467 TAKUM16 =
     Inr \<lparr>df_s = 0, df_d = 0, df_r = 1, df_m_bits = 10, df_c = 1, df_m = 395, df_l = - 2\<rparr>"
proof -
  have n: "nar_value TAKUM16 = Inr (- 32768)"
    by (simp add: nar_value_def TAKUM_defs shl_nonneg)
  show ?thesis
    using fields_2_16 enc_2_16 n dec_fields_1653 fields_half_16 enc_half_16 dec_fields_3467
    by (intro conjI)
qed

section \<open>Field widths\<close>

text \<open>
  C9, as stated, fails: at bit width 8 the encoder produces regime 4 for the input
  1048576.0 (logarithm 28), the mantissa width is clamped to 0, and the field widths sum
  to \<open>1 + 1 + 3 + 4 + 0 = 9\<close>, not 8.
\<close>

theorem field_width_sum_counterexample:
  "supported TAKUM8
   \<and> encode_fields 1048576 TAKUM8 =
       Inr \<lparr>ef_s = 0, ef_l_float = 2 * ln 1048576, ef_l = 28, ef_d = 1, ef_r = 4,
            ef_c = - 3, ef_m_bits = 0, ef_m = 0\<rparr>
   \<and> max 0 (bits TAKUM8 - 5 - 4) = 0
   \<and> 1 + 1 + 3 + 4 + 0 \<noteq> bits TAKUM8"
  by (simp add: fields_2p20_8 supported_iff) (simp add: TAKUM_defs)

text \<open>
  C9, amended. For every supported width and every regime \<open>r\<close> the encoder produces on
  it, \<open>r\<close> lies between 0 and 7, the mantissa width is \<open>max 0 (bits - 5 - r)\<close>, and
  the widths \<open>1 + 1 + 3 + r + m_bits\<close> sum to \<open>bits\<close> exactly when \<open>r \<le> bits - 5\<close>:
  always at the widths 16, 32 and 64, and at width 8 when \<open>r \<le> 3\<close>.
\<close>

theorem field_width_sum:
  assumes "supported cfg" and "v \<noteq> 0" and "encode_fields v cfg = Inr f"
  shows "ef_m_bits f = max 0 (bits cfg - 5 - ef_r f)
       \<and> 0 \<le> ef_r f \<and> ef_r f \<le> 7
       \<and> (1 + 1 + 3 + ef_r f + ef_m_bits f = bits cfg \<longleftrightarrow> ef_r f \<le> bits cfg - 5)
       \<and> (bits cfg \<noteq> 8 \<or> ef_r f \<le> 3 \<longrightarrow> 1 + 1 + 3 + ef_r f + ef_m_bits f = bits cfg)"
proof -
  define l where "l = max (- 255) (min 255 (py_round (2 * ln (abs v))))"
  from assms(3) have r: "ef_r f = compute_regime (abs l)"
    and m: "ef_m_bits f = mantissa_bits cfg (compute_regime (abs l))"
    unfolding encode_fields_eq [OF assms(2)] l_def by auto
  have rr: "0 \<le> ef_r f" "ef_r f \<le> 7"
    using compute_regime_range [of "abs l"] by (simp_all add: r)
  from supported_bits [OF assms(1)] have b: "bits cfg \<in> {8, 16, 32, 64}" "overhead_bits cfg = 5"
    by simp_all
  have mm: "ef_m_bits f = max 0 (bits cfg - 5 - ef_r f)"
    by (simp add: m r mantissa_bits_def b(2) Let_def max_def)
  show ?thesis using rr b(1) by (auto simp: mm)
qed

theorem field_width_sum_witness:
  "supported TAKUM16 \<and> (2::real) \<noteq> 0
   \<and> encode_fields 2 TAKUM16 =
       Inr \<lparr>ef_s = 0, ef_l_float = 2 * ln 2, ef_l = 1, ef_d = 1, ef_r = 1, ef_c = - 2,
            ef_m_bits = 10, ef_m = 395\<rparr>
   \<and> (10::int) = max 0 (bits TAKUM16 - 5 - 1)
   \<and> 1 + 1 + 3 + 1 + 10 = bits TAKUM16"
proof -
  have s: "supported TAKUM16" by (simp add: supported_iff)
  have nz: "(2::real) \<noteq> 0" by simp
  from field_width_sum [OF s nz fields_2_16]
  show ?thesis using s fields_2_16 by simp
qed

section \<open>Totality of the decoder\<close>

text \<open>
  The bound on the reconstructed logarithm is attained: at bit width 64 the pattern
  \<open>2 ^ 63 - 1\<close> has regime 7, characteristic 127 and the mantissa \<open>2 ^ 52 - 1\<close>, the
  quotient \<open>1 - 1 / 2 ^ 52\<close> is a double, and the sum \<open>383 - 1 / 2 ^ 52\<close> rounds to 383.
\<close>

lemma round_double_binade:
  assumes "2 powr of_int e \<le> x" and "x < 2 powr of_int (e + 1)" and "e \<le> 52"
  shows "round_double x = of_int (py_round (x * 2 ^ nat (52 - e))) / 2 ^ nat (52 - e)"
proof -
  have pos: "0 < x" using assms(1) powr_gt_zero [of 2 "of_int e"] by linarith
  then have fl: "\<lfloor>log 2 (abs x)\<rfloor> = e"
    using assms(1,2) by (simp add: floor_log_eq_powr_iff)
  have "real_of_int (e - 52) = - real (nat (52 - e))" using assms(3) by simp
  then have "(2::real) powr real_of_int (e - 52) = 2 powr (- real (nat (52 - e)))"
    by (simp only:)
  then have u: "(2::real) powr real_of_int (e - 52) = 1 / 2 ^ nat (52 - e)"
    by (simp add: powr_minus powr_realpow inverse_eq_divide)
  show ?thesis
    unfolding round_double_def Let_def fl u
    using pos by simp
qed

lemma decode_fields_max_64:
  "decode_fields (2 ^ 63 - 1) TAKUM64 =
     Inr \<lparr>df_s = 0, df_d = 1, df_r = 7, df_m_bits = 52, df_c = 127,
          df_m = 2 ^ 52 - 1, df_l = 382\<rparr>"
  by (simp add: decode_fields_def TAKUM_defs shl_nonneg shr_nonneg mantissa_bits_def
      overhead_bits_def lut_get_in_range)

lemma decode_l_float_max_64:
  "decode_l_float \<lparr>df_s = 0, df_d = 1, df_r = 7, df_m_bits = 52, df_c = 127,
      df_m = 2 ^ 52 - 1, df_l = 382\<rparr> = Inr 383"
proof -
  define q :: real where "q = (2 ^ 52 - 1) / 2 ^ 52"
  have "round_double q =
      of_int (py_round (q * 2 ^ nat (52 - (- 1)))) / 2 ^ nat (52 - (- 1))"
    by (rule round_double_binade) (simp_all add: q_def powr_minus)
  also have "q * 2 ^ nat (52 - (- 1)) = of_int (2 * (2 ^ 52 - 1))"
    by (simp add: q_def)
  also have "of_int (py_round (of_int (2 * (2 ^ 52 - 1)))) / 2 ^ nat (52 - (- 1)) = q"
    unfolding py_round_of_int by (simp add: q_def)
  finally have rq: "round_double q = q" .
  have "round_double (382 + q) =
      of_int (py_round ((382 + q) * 2 ^ nat (52 - 8))) / 2 ^ nat (52 - 8)"
    by (rule round_double_binade) (simp_all add: q_def powr_numeral)
  also have "py_round ((382 + q) * 2 ^ nat (52 - 8)) = 383 * 2 ^ 44"
    by (rule py_round_eqI) (simp_all add: q_def)
  also have "real_of_int (383 * 2 ^ 44) / 2 ^ nat (52 - 8) = 383"
    by simp
  finally have rs: "round_double (382 + q) = 383" .
  have "decode_l_float \<lparr>df_s = 0, df_d = 1, df_r = 7, df_m_bits = 52, df_c = 127,
      df_m = 2 ^ 52 - 1, df_l = 382\<rparr> = Inr (round_double (382 + round_double q))"
    by (simp add: decode_l_float_def shl_nonneg q_def)
  then show ?thesis by (simp only: rq rs)
qed

text \<open>
  C10. For every supported width and every integer pattern (in particular every one
  representable in the width) the decoder returns a float and raises nothing; the float is
  never an infinity, it is NaN exactly for the not-a-real pattern, zero exactly for the
  pattern 0, and for every other pattern it is \<open>exp (l_float / 2)\<close> with the sign
  applied, a non-zero finite number, where the reconstructed logarithm \<open>l_float\<close>, as
  the doubles compute it, lies in \<open>[- 255, 383]\<close>, far inside the range where
  \<^verbatim>\<open>math.exp\<close> neither overflows nor underflows.
\<close>

theorem decode_total:
  assumes "supported cfg"
  shows "(\<exists>y. decode_takum_log enc cfg = Inr y \<and> y \<noteq> PInf \<and> y \<noteq> NInf
            \<and> (y = NaN \<longleftrightarrow> enc = - (2 ^ nat (bits cfg - 1)))
            \<and> (y = Fin 0 \<longleftrightarrow> enc = 0)
            \<and> (enc \<noteq> - (2 ^ nat (bits cfg - 1)) \<and> enc \<noteq> 0 \<longrightarrow> (\<exists>x. y = Fin x \<and> x \<noteq> 0)))
       \<and> (enc \<noteq> - (2 ^ nat (bits cfg - 1)) \<and> enc \<noteq> 0 \<longrightarrow>
            (\<exists>f lf. decode_fields enc cfg = Inr f \<and> decode_l_float f = Inr lf
               \<and> - 255 \<le> lf \<and> lf \<le> 383
               \<and> math_exp (lf / 2) = Inr (exp (lf / 2))
               \<and> decode_takum_log enc cfg =
                   Inr (Fin (if df_s f = 1 then - exp (lf / 2) else exp (lf / 2)))))"
proof -
  obtain f where f: "decode_fields enc cfg = Inr f"
     "df_s f = 0 \<or> df_s f = 1" "0 \<le> df_m_bits f"
     "0 \<le> df_m f" "df_m f < 2 ^ nat (df_m_bits f)" "- 255 \<le> df_l f" "df_l f \<le> 382"
    using decode_fields_bounds [OF assms, of enc] by blast
  define q :: real where "q = of_int (df_m f) / 2 ^ nat (df_m_bits f)"
  define frac where "frac = round_double q"
  define lf where
    "lf = (if df_m_bits f > 0 then round_double (of_int (df_l f) + frac) else of_int (df_l f))"
  have lf: "decode_l_float f = Inr lf"
    by (simp add: decode_l_float_def frac_def q_def lf_def shl_nonneg)
  have "real_of_int (df_m f) < 2 ^ nat (df_m_bits f)"
    using f(5) by (metis of_int_less_iff of_int_numeral of_int_power)
  then have qb: "0 \<le> q" "q < 1"
    using f(4) by (simp_all add: q_def)
  then have qa: "abs q < 2 ^ 53" by simp
  have "of_int 0 \<le> round_double q"
    using qb(1) qa by (intro round_double_ge) simp_all
  moreover have "round_double q \<le> of_int 1"
    using qb(2) qa by (intro round_double_le) simp_all
  ultimately have fr: "0 \<le> frac" "frac \<le> 1"
    by (simp_all add: frac_def)
  have lr: "- 255 \<le> real_of_int (df_l f)" "real_of_int (df_l f) \<le> 382"
    using f(6,7) by linarith+
  with fr have sb: "- 255 \<le> of_int (df_l f) + frac" "of_int (df_l f) + frac \<le> 383"
    by simp_all
  then have sa: "abs (of_int (df_l f) + frac) < 2 ^ 53" by simp
  have "of_int (- 255) \<le> round_double (of_int (df_l f) + frac)"
    using sb(1) sa by (intro round_double_ge) simp_all
  moreover have "round_double (of_int (df_l f) + frac) \<le> of_int 383"
    using sb(2) sa by (intro round_double_le) simp_all
  ultimately have lfb: "- 255 \<le> lf" "lf \<le> 383"
    using lr by (simp_all add: lf_def)
  then have "- 128 \<le> lf / 2" "lf / 2 \<le> 192"
    by simp_all
  then have ex: "math_exp (lf / 2) = Inr (exp (lf / 2))"
    by (rule math_exp_in_range)
  have nar: "nar_value cfg = Inr (- (2 ^ nat (bits cfg - 1)))"
    by (rule nar_value_supported [OF assms])
  have nz: "(2::int) ^ nat (bits cfg - 1) \<noteq> 0" by simp
  have d: "decode_takum_log enc cfg =
      (if enc = - (2 ^ nat (bits cfg - 1)) then Inr NaN
       else if enc = 0 then Inr (Fin 0)
       else Inr (Fin (if df_s f = 1 then - exp (lf / 2) else exp (lf / 2))))"
    by (simp add: decode_takum_log_def nar f(1) lf ex)
  have first: "\<exists>y. decode_takum_log enc cfg = Inr y \<and> y \<noteq> PInf \<and> y \<noteq> NInf
            \<and> (y = NaN \<longleftrightarrow> enc = - (2 ^ nat (bits cfg - 1)))
            \<and> (y = Fin 0 \<longleftrightarrow> enc = 0)
            \<and> (enc \<noteq> - (2 ^ nat (bits cfg - 1)) \<and> enc \<noteq> 0 \<longrightarrow> (\<exists>x. y = Fin x \<and> x \<noteq> 0))"
    unfolding d using nz by auto
  have second: "enc \<noteq> - (2 ^ nat (bits cfg - 1)) \<and> enc \<noteq> 0 \<longrightarrow>
            (\<exists>f lf. decode_fields enc cfg = Inr f \<and> decode_l_float f = Inr lf
               \<and> - 255 \<le> lf \<and> lf \<le> 383
               \<and> math_exp (lf / 2) = Inr (exp (lf / 2))
               \<and> decode_takum_log enc cfg =
                   Inr (Fin (if df_s f = 1 then - exp (lf / 2) else exp (lf / 2))))"
    using f(1) lf lfb ex d by auto
  from first second show ?thesis ..
qed

theorem decode_total_witness:
  "supported TAKUM16
   \<and> (3467::int) \<noteq> - (2 ^ nat (bits TAKUM16 - 1)) \<and> (3467::int) \<noteq> 0
   \<and> (\<exists>y. decode_takum_log 3467 TAKUM16 = Inr y \<and> y \<noteq> PInf \<and> y \<noteq> NInf \<and> y \<noteq> NaN
          \<and> y \<noteq> Fin 0 \<and> (\<exists>x. y = Fin x \<and> x \<noteq> 0))
   \<and> (\<exists>f lf. decode_fields 3467 TAKUM16 = Inr f \<and> decode_l_float f = Inr lf
          \<and> - 255 \<le> lf \<and> lf \<le> 383
          \<and> decode_takum_log 3467 TAKUM16 =
              Inr (Fin (if df_s f = 1 then - exp (lf / 2) else exp (lf / 2))))"
proof -
  have s: "supported TAKUM16" by (simp add: supported_iff)
  have b: "(2::int) ^ nat (bits TAKUM16 - 1) = 32768" by (simp add: TAKUM_defs)
  have n: "(3467::int) \<noteq> - (2 ^ nat (bits TAKUM16 - 1)) \<and> (3467::int) \<noteq> 0"
    by (simp add: b)
  note t = decode_total [OF s, of 3467]
  from t n have A: "\<exists>y. decode_takum_log 3467 TAKUM16 = Inr y \<and> y \<noteq> PInf \<and> y \<noteq> NInf
      \<and> y \<noteq> NaN \<and> y \<noteq> Fin 0 \<and> (\<exists>x. y = Fin x \<and> x \<noteq> 0)"
    by blast
  from t n have B: "\<exists>f lf. decode_fields 3467 TAKUM16 = Inr f \<and> decode_l_float f = Inr lf
          \<and> - 255 \<le> lf \<and> lf \<le> 383
          \<and> decode_takum_log 3467 TAKUM16 =
              Inr (Fin (if df_s f = 1 then - exp (lf / 2) else exp (lf / 2)))"
    by blast
  from s n A B show ?thesis by (intro conjI) simp_all
qed

end
